theory Spec2Isabelle
  imports Main
begin

section \<open>The front end: \<open>App.jsx\<close>\<close>

text \<open>
  \<open>src/dockmate-frontend/dockmate-frontend-full/src/App.jsx\<close> declares the component
  \<open>App\<close>: a \<open>BrowserRouter\<close> whose children are \<open>Navbar\<close> and a \<open>Routes\<close> switch
  with five \<open>Route\<close> entries. The page components (\<open>Dashboard\<close>, \<open>Login\<close>, \<open>Signup\<close>,
  \<open>SubmitRepo\<close>) are imported from files that are not part of the sources, so they are
  opaque constructors here. \<open>Navbar\<close> is in the sources and is modelled as the tree it
  returns.
\<close>

subsection \<open>What a render produces\<close>

datatype page = Dashboard | Login | Signup | SubmitRepo

datatype react_element = Page page | Navigate string

datatype html =
    Tag string string "html list"
  | Anchor string string string
  | Txt string

datatype node = Html html | Rendered react_element

text \<open>
  \<open>Tag name className children\<close>, \<open>Anchor href className text\<close>. The body of \<open>Navbar\<close>,
  line by line.
\<close>

definition Navbar :: html where
  "Navbar =
     Tag ''nav'' ''bg-white border-b shadow-sm px-6 py-4 flex justify-between''
       [Tag ''span'' ''font-bold text-lg'' [Txt ''DockMate''],
        Tag ''div'' ''space-x-4''
          [Anchor ''/'' ''text-blue-600 hover:underline'' ''Dashboard'',
           Anchor ''/login'' ''text-blue-600 hover:underline'' ''Login'',
           Anchor ''/signup'' ''text-white bg-blue-600 px-3 py-2 rounded-md'' ''Signup'']]"

subsection \<open>The route table\<close>

text \<open>
  A \<open>Route\<close> carries the props \<open>path\<close> and \<open>element\<close>; \<open>caseSensitive\<close> is a prop that
  \<open>App.jsx\<close> sets on no route, so it has the falsy default everywhere.
\<close>

record route =
  path :: string
  caseSensitive :: bool
  element :: react_element

definition routes :: "route list" where
  "routes =
     [\<lparr>path = ''/'', caseSensitive = False, element = Page Dashboard\<rparr>,
      \<lparr>path = ''/login'', caseSensitive = False, element = Page Login\<rparr>,
      \<lparr>path = ''/signup'', caseSensitive = False, element = Page Signup\<rparr>,
      \<lparr>path = ''/submit'', caseSensitive = False, element = Page SubmitRepo\<rparr>,
      \<lparr>path = ''*'', caseSensitive = False, element = Navigate ''/''\<rparr>]"

subsection \<open>How the router matches a path\<close>

text \<open>
  \<open>Routes\<close>, \<open>Route\<close> and \<open>Navigate\<close> are imported from \<open>react-router-dom\<close> (the
  element-prop API of its version 6). The library is a dependency, not a file of the
  repository; what \<open>App\<close> renders is decided by the library's matcher, which is modelled
  here for the two kinds of path \<open>App.jsx\<close> uses, a static path and a splat:

  \<^item> \<open>matchRoutes\<close> takes the location's pathname (\<open>/\<close> when it is empty), decodes it
    with \<open>decodePath\<close> and matches the decoded pathname against the ranked routes.
  \<^item> \<open>decodePath\<close> splits the pathname at \<open>/\<close>, applies \<open>decodeURIComponent\<close> to every
    segment, writes a decoded \<open>/\<close> back as \<open>%2F\<close> and joins the segments again; when
    \<open>decodeURIComponent\<close> throws on a segment, the pathname is used as it is.
  \<^item> \<open>compilePath\<close> turns a route path into a regular expression: a trailing \<open>/*\<close> or
    \<open>/\<close> of the path is dropped and a leading \<open>/\<close> is ensured; a path that does not
    end in \<open>*\<close> is closed by \<open>\/*$\<close> (trailing slashes of the location are ignored);
    the path \<open>*\<close> is closed by \<open>(.*)$\<close>; any other path ending in \<open>*\<close> by
    \<open>(?:\/(.+)|\/*)$\<close>. The expression gets the flag \<open>i\<close> unless the route is
    \<open>caseSensitive\<close>.
  \<^item> \<open>.\<close> in a regular expression matches no line terminator: none of the code units
    \<open>000A\<close>, \<open>000D\<close>, \<open>2028\<close> and \<open>2029\<close>.
  \<^item> \<open>rankRouteBranches\<close> orders the routes by \<open>computeScore\<close>, higher first, siblings of
    equal score in the order they are written; the first route in that order whose
    expression matches is rendered. With no match \<open>Routes\<close> renders nothing.

  Dynamic segments (\<open>:id\<close>) occur in no path of \<open>App.jsx\<close> and are not modelled.

  A JavaScript string is a sequence of UTF-16 code units, here a list of numbers (a code
  unit is a number below 65536; the theorems hold for every list); \<open>js\<close> gives the code
  units of a literal of the source.
\<close>

type_synonym js_string = "nat list"

definition js :: "string \<Rightarrow> js_string" where
  "js s = map of_char s"

subsubsection \<open>\<open>decodeURIComponent\<close> and \<open>decodePath\<close>\<close>

text \<open>
  \<open>decodeURIComponent\<close> reads the string from left to right. A code unit other than \<open>%\<close>
  is copied. A \<open>%\<close> must be followed by two hexadecimal digits, which give an octet. An
  octet below 128 is the code unit decoded. Any other octet must be the first of a UTF-8
  sequence of two to four octets, the others following as escapes of their own; the
  sequence must be the UTF-8 encoding of a code point (shortest form, no surrogate, at
  most \<open>10FFFF\<close>), which is appended in UTF-16. Everything else throws \<open>URIError\<close>, the
  result \<open>None\<close> here.
\<close>

definition hex_digit :: "nat \<Rightarrow> nat option" where
  "hex_digit c =
     (if 48 \<le> c \<and> c \<le> 57 then Some (c - 48)
      else if 65 \<le> c \<and> c \<le> 70 then Some (c - 55)
      else if 97 \<le> c \<and> c \<le> 102 then Some (c - 87)
      else None)"

definition ParseHexOctet :: "nat \<Rightarrow> nat \<Rightarrow> nat option" where
  "ParseHexOctet a b =
     (case hex_digit a of None \<Rightarrow> None
      | Some x \<Rightarrow> (case hex_digit b of None \<Rightarrow> None | Some y \<Rightarrow> Some (16 * x + y)))"

datatype token = Unit nat | Octet nat | Malformed

fun escapes :: "js_string \<Rightarrow> token list" where
  "escapes (c # a # b # rest) =
     (if c = 37 then
        (case ParseHexOctet a b of None \<Rightarrow> [Malformed] | Some B \<Rightarrow> Octet B # escapes rest)
      else Unit c # escapes (a # b # rest))"
| "escapes (c # rest) = (if c = 37 then [Malformed] else Unit c # escapes rest)"
| "escapes [] = []"

definition leading_ones :: "nat \<Rightarrow> nat" where
  \<comment> \<open>the number of leading 1 bits of an octet; 5 stands for more than four\<close>
  "leading_ones B =
     (if B < 128 then 0 else if B < 192 then 1 else if B < 224 then 2
      else if B < 240 then 3 else if B < 248 then 4 else 5)"

definition continuation :: "nat \<Rightarrow> bool" where
  "continuation b = (128 \<le> b \<and> b \<le> 191)"

definition utf8_code_point :: "nat list \<Rightarrow> nat option" where
  "utf8_code_point octets =
     (case octets of
        [a, b] \<Rightarrow>
          (let v = (a - 192) * 64 + (b - 128)
           in if continuation b \<and> 128 \<le> v then Some v else None)
      | [a, b, c] \<Rightarrow>
          (let v = (a - 224) * 4096 + (b - 128) * 64 + (c - 128)
           in if continuation b \<and> continuation c \<and> 2048 \<le> v \<and> \<not> (55296 \<le> v \<and> v \<le> 57343)
              then Some v else None)
      | [a, b, c, d] \<Rightarrow>
          (let v = (a - 240) * 262144 + (b - 128) * 4096 + (c - 128) * 64 + (d - 128)
           in if continuation b \<and> continuation c \<and> continuation d \<and> 65536 \<le> v \<and> v \<le> 1114111
              then Some v else None)
      | _ \<Rightarrow> None)"

definition UTF16EncodeCodePoint :: "nat \<Rightarrow> js_string" where
  "UTF16EncodeCodePoint v =
     (if v < 65536 then [v]
      else [55296 + (v - 65536) div 1024, 56320 + (v - 65536) mod 1024])"

fun decode :: "nat list \<Rightarrow> nat \<Rightarrow> token list \<Rightarrow> js_string option" where
  \<comment> \<open>\<open>octets\<close>: the octets of the sequence being read; \<open>need\<close>: how many are missing\<close>
  "decode octets need [] = (if need = 0 then Some [] else None)"
| "decode octets need (t # ts) =
     (if need = 0 then
        (case t of
           Unit c \<Rightarrow> map_option ((#) c) (decode [] 0 ts)
         | Malformed \<Rightarrow> None
         | Octet B \<Rightarrow>
             (if leading_ones B = 0 then map_option ((#) B) (decode [] 0 ts)
              else if leading_ones B = 1 \<or> 4 < leading_ones B then None
              else decode [B] (leading_ones B - 1) ts))
      else
        (case t of
           Octet B \<Rightarrow>
             (if need = 1 then
                (case utf8_code_point (octets @ [B]) of
                   None \<Rightarrow> None
                 | Some v \<Rightarrow> map_option ((@) (UTF16EncodeCodePoint v)) (decode [] 0 ts))
              else decode (octets @ [B]) (need - 1) ts)
         | _ \<Rightarrow> None))"

definition decodeURIComponent :: "js_string \<Rightarrow> js_string option" where
  "decodeURIComponent s = decode [] 0 (escapes s)"

fun split_on :: "nat \<Rightarrow> js_string \<Rightarrow> js_string list" where
  "split_on d [] = [[]]"
| "split_on d (c # cs) =
     (if c = d then [] # split_on d cs
      else (case split_on d cs of [] \<Rightarrow> [[c]] | s # ss \<Rightarrow> (c # s) # ss))"

fun join :: "js_string list \<Rightarrow> js_string" where
  \<comment> \<open>\<open>.join("/")\<close>\<close>
  "join [] = []"
| "join [s] = s"
| "join (s # ss) = s @ 47 # join ss"

definition escape_slashes :: "js_string \<Rightarrow> js_string" where
  \<comment> \<open>\<open>.replace(/\//g, "%2F")\<close>\<close>
  "escape_slashes s = concat (map (\<lambda>c. if c = 47 then js ''%2F'' else [c]) s)"

fun collect :: "js_string option list \<Rightarrow> js_string list option" where
  \<comment> \<open>the decoded segments, unless one of them threw\<close>
  "collect [] = Some []"
| "collect (None # ds) = None"
| "collect (Some s # ds) = map_option ((#) s) (collect ds)"

definition decodePath :: "js_string \<Rightarrow> js_string" where
  "decodePath v =
     (case collect (map decodeURIComponent (split_on 47 v)) of
        None \<Rightarrow> v
      | Some segments \<Rightarrow> join (map escape_slashes segments))"

subsubsection \<open>\<open>matchPath\<close>\<close>

definition canonicalize :: "nat \<Rightarrow> nat" where
  \<comment> \<open>Case folding of the flag \<open>i\<close>, to upper case. Only ASCII letters are folded: the
      paths of \<open>App.jsx\<close> are ASCII, and folding maps no other code unit to an ASCII one.\<close>
  "canonicalize c = (if 97 \<le> c \<and> c \<le> 122 then c - 32 else c)"

definition is_slash :: "nat \<Rightarrow> bool" where
  "is_slash c = (c = 47)"

definition line_terminator :: "nat \<Rightarrow> bool" where
  "line_terminator c = (c = 0x0A \<or> c = 0x0D \<or> c = 0x2028 \<or> c = 0x2029)"

definition ends_with_star :: "js_string \<Rightarrow> bool" where
  "ends_with_star p = (p \<noteq> [] \<and> last p = 42)"

definition pattern_source :: "js_string \<Rightarrow> js_string" where
  \<comment> \<open>\<open>path.replace(/\/*\*?$/, "").replace(/^\/*/, "/")\<close>\<close>
  "pattern_source p =
     (let a = (if ends_with_star p then butlast p else p);
          b = rev (dropWhile is_slash (rev a))
      in 47 # dropWhile is_slash b)"

definition fold_case :: "bool \<Rightarrow> js_string \<Rightarrow> js_string" where
  "fold_case cs s = (if cs then s else map canonicalize s)"

definition matchPath :: "js_string \<Rightarrow> bool \<Rightarrow> js_string \<Rightarrow> bool" where
  "matchPath p cs pathname =
     (let src = pattern_source p;
          n = length src;
          front = (fold_case cs (take n pathname) = fold_case cs src);
          rest = drop n pathname
      in if ends_with_star p then
           (if p = js ''*'' \<or> p = js ''/*'' then front \<and> \<not> list_ex line_terminator rest
            else front \<and>
              (list_all is_slash rest \<or>
               (case rest of [] \<Rightarrow> False
                | c # cs' \<Rightarrow> is_slash c \<and> cs' \<noteq> [] \<and> \<not> list_ex line_terminator cs')))
         else front \<and> list_all is_slash rest)"

subsubsection \<open>Ranking and \<open>matchRoutes\<close>\<close>

fun collapse_slashes :: "js_string \<Rightarrow> js_string" where
  "collapse_slashes (a # b # cs) =
     (if is_slash a \<and> is_slash b then collapse_slashes (b # cs)
      else a # collapse_slashes (b # cs))"
| "collapse_slashes cs = cs"

definition joinPaths :: "js_string \<Rightarrow> js_string \<Rightarrow> js_string" where
  \<comment> \<open>\<open>[parent, child].join("/").replace(/\/\/+/g, "/")\<close>\<close>
  "joinPaths parent child = collapse_slashes (parent @ js ''/'' @ child)"

definition computeScore :: "js_string \<Rightarrow> int" where
  \<comment> \<open>segment count, \<open>-2\<close> for a splat, \<open>1\<close> for an empty and \<open>10\<close> for a static segment\<close>
  "computeScore p =
     (let segments = split_on 47 p;
          initial = int (length segments) + (if list_ex (\<lambda>s. s = js ''*'') segments then - 2 else 0)
      in fold (\<lambda>s score. score + (if s = [] then 1 else 10))
           (filter (\<lambda>s. s \<noteq> js ''*'') segments) initial)"

definition rankRouteBranches :: "route list \<Rightarrow> route list" where
  "rankRouteBranches rs = sort_key (\<lambda>r. - computeScore (joinPaths [] (js (path r)))) rs"

definition matchRoutes :: "route list \<Rightarrow> js_string \<Rightarrow> route option" where
  "matchRoutes rs pathname =
     (let decoded = decodePath pathname
      in find (\<lambda>r. matchPath (js (path r)) (caseSensitive r) decoded) (rankRouteBranches rs))"

definition Routes :: "route list \<Rightarrow> js_string \<Rightarrow> react_element option" where
  "Routes rs pathname =
     map_option element (matchRoutes rs (if pathname = [] then js ''/'' else pathname))"

subsection \<open>The component\<close>

text \<open>
  \<open>App\<close> at a location: the children of \<open>BrowserRouter\<close> in order, first \<open>Navbar\<close>, then
  whatever \<open>Routes\<close> renders for the pathname.
\<close>

definition App :: "js_string \<Rightarrow> node list" where
  "App pathname =
     Html Navbar # (case Routes routes pathname of None \<Rightarrow> [] | Some e \<Rightarrow> [Rendered e])"

text \<open>
  A rendered \<open>Navigate\<close> moves the location to its target (an absolute one here), after
  which \<open>App\<close> renders again.
\<close>

definition location_after :: "js_string \<Rightarrow> js_string" where
  "location_after pathname =
     (case Routes routes pathname of Some (Navigate to) \<Rightarrow> js to | _ \<Rightarrow> pathname)"

definition trim_slashes :: "js_string \<Rightarrow> js_string" where
  \<comment> \<open>a pathname without its trailing slashes\<close>
  "trim_slashes s = rev (dropWhile is_slash (rev s))"

section \<open>The analysis engine: the Optimizer/Scorer\<close>

text \<open>
  Modelled from the spec: the Optimizer/Scorer (\<open>select\<close>) and the \<open>TemplateCandidate\<close>
  it ranks are not in the sources, which hold the front end only. The definitions below
  follow section 3 (data model) and section 4.5 of the specification: the candidate has a
  base image tag, a build strategy, ordered layer instructions and an estimated image-size
  class; \<open>select\<close> consults, in this order and each only when the one before ties,
  (1) multi-stage before single-stage, (2) the smaller size class, (3) fewer layer
  instructions, (4) the candidate emitted earlier.
\<close>

datatype build_strategy = SingleStage | MultiStage

datatype size_class = Small | Medium | Large

record TemplateCandidate =
  base_image_tag :: string
  strategy :: build_strategy
  layer_instructions :: "string list"
  image_size :: size_class

fun size_rank :: "size_class \<Rightarrow> nat" where
  "size_rank Small = 0"
| "size_rank Medium = 1"
| "size_rank Large = 2"

definition beats :: "TemplateCandidate \<Rightarrow> TemplateCandidate \<Rightarrow> bool" where
  \<comment> \<open>Modelled from the spec: criteria (1) to (3); the first one on which the two
      candidates differ decides.\<close>
  "beats c d =
     (if strategy c \<noteq> strategy d then strategy c = MultiStage
      else if image_size c \<noteq> image_size d then size_rank (image_size c) < size_rank (image_size d)
      else length (layer_instructions c) < length (layer_instructions d))"

fun scan :: "TemplateCandidate \<Rightarrow> TemplateCandidate list \<Rightarrow> TemplateCandidate" where
  \<comment> \<open>Modelled from the spec: one pass in emission order; the candidate held is replaced
      only by one that beats it, which is criterion (4).\<close>
  "scan best [] = best"
| "scan best (c # cs) = scan (if beats c best then c else best) cs"

definition select :: "TemplateCandidate list \<Rightarrow> TemplateCandidate option" where
  \<comment> \<open>Modelled from the spec: \<open>select\<close> of section 4.5. The contract covers non-empty
      sequences; for the empty one (\<open>NoTemplate\<close> at the orchestrator) there is nothing
      to return.\<close>
  "select cs = (case cs of [] \<Rightarrow> None | c # rest \<Rightarrow> Some (scan c rest))"

definition priority_choice :: "TemplateCandidate list \<Rightarrow> nat \<Rightarrow> bool" where
  \<comment> \<open>Position \<open>i\<close> is the one the four criteria of section 4.5 single out.\<close>
  "priority_choice cs i =
     (i < length cs \<and>
      (\<forall>j<length cs.
         (strategy (cs ! j) = MultiStage \<longrightarrow> strategy (cs ! i) = MultiStage) \<and>
         (strategy (cs ! j) = strategy (cs ! i) \<longrightarrow>
            size_rank (image_size (cs ! i)) \<le> size_rank (image_size (cs ! j))) \<and>
         (strategy (cs ! j) = strategy (cs ! i) \<and> image_size (cs ! j) = image_size (cs ! i) \<longrightarrow>
            length (layer_instructions (cs ! i)) \<le> length (layer_instructions (cs ! j))) \<and>
         (strategy (cs ! j) = strategy (cs ! i) \<and> image_size (cs ! j) = image_size (cs ! i) \<and>
          length (layer_instructions (cs ! j)) = length (layer_instructions (cs ! i)) \<longrightarrow>
            i \<le> j)))"

text \<open>
  The three criteria as one key, compared lexicographically; \<open>beats\<close> is this order
  (\<open>beats_key\<close> below).
\<close>

fun strategy_rank :: "build_strategy \<Rightarrow> nat" where
  "strategy_rank MultiStage = 0"
| "strategy_rank SingleStage = 1"

definition key :: "TemplateCandidate \<Rightarrow> nat \<times> nat \<times> nat" where
  "key c = (strategy_rank (strategy c), size_rank (image_size c), length (layer_instructions c))"

fun lex3 :: "nat \<times> nat \<times> nat \<Rightarrow> nat \<times> nat \<times> nat \<Rightarrow> bool" where
  "lex3 (a, b, c) (a', b', c') = (a < a' \<or> (a = a' \<and> (b < b' \<or> (b = b' \<and> c < c'))))"

definition example_candidates :: "TemplateCandidate list" where
  "example_candidates =
     [\<lparr>base_image_tag = ''node:20'', strategy = SingleStage,
        layer_instructions = [''COPY'', ''RUN install'', ''CMD start''], image_size = Small\<rparr>,
      \<lparr>base_image_tag = ''node:20-slim'', strategy = MultiStage,
        layer_instructions = [''COPY'', ''RUN install'', ''RUN build'', ''COPY --from'', ''CMD start''],
        image_size = Medium\<rparr>,
      \<lparr>base_image_tag = ''node:20-alpine'', strategy = MultiStage,
        layer_instructions = [''COPY'', ''RUN install'', ''RUN build'', ''COPY --from'', ''CMD start''],
        image_size = Medium\<rparr>]"

section \<open>Properties of the front end\<close>

subsection \<open>The matcher on the paths of the route table\<close>

lemma canonicalize_slash: "is_slash (canonicalize c) = is_slash c"
  by (auto simp add: canonicalize_def is_slash_def)

lemma canonicalize_eq_slash: "canonicalize c = 47 \<longleftrightarrow> c = 47"
  by (auto simp add: canonicalize_def)

lemma trim_slashes_decomp: "\<exists>k. s = trim_slashes s @ replicate k 47"
proof -
  let ?t = "takeWhile is_slash (rev s)"
  have "rev (?t @ dropWhile is_slash (rev s)) = s"
    by (simp only: takeWhile_dropWhile_id rev_rev_ident)
  then have s: "s = trim_slashes s @ rev ?t"
    by (simp only: rev_append trim_slashes_def)
  have "\<forall>c \<in> set (rev ?t). c = 47"
    by (auto dest: set_takeWhileD simp add: is_slash_def)
  then have "replicate (length (rev ?t)) 47 = rev ?t"
    by (rule replicate_length_same)
  with s show ?thesis by metis
qed

lemma trim_slashes_last: "trim_slashes s \<noteq> [] \<Longrightarrow> \<not> is_slash (last (trim_slashes s))"
  using hd_dropWhile [of is_slash "rev s"] by (simp add: trim_slashes_def last_rev)

lemma trim_slashes_append: "list_all is_slash b \<Longrightarrow> trim_slashes (a @ b) = trim_slashes a"
  by (simp add: trim_slashes_def dropWhile_append list_all_iff)

lemma trim_slashes_id: "a \<noteq> [] \<Longrightarrow> \<not> is_slash (last a) \<Longrightarrow> trim_slashes a = a"
  by (cases "rev a") (auto simp add: trim_slashes_def last_rev [symmetric])

lemma static_match:
  assumes "src \<noteq> []" and "\<not> is_slash (last src)"
  shows "(map canonicalize (take (length src) p) = map canonicalize src
            \<and> list_all is_slash (drop (length src) p))
         \<longleftrightarrow> map canonicalize (trim_slashes p) = map canonicalize src"
proof
  assume h: "map canonicalize (take (length src) p) = map canonicalize src
            \<and> list_all is_slash (drop (length src) p)"
  let ?a = "take (length src) p"
  from h have len: "length ?a = length src" by (metis length_map)
  with assms have ne: "?a \<noteq> []" by auto
  from h have "canonicalize (last ?a) = canonicalize (last src)"
    using ne assms(1) by (metis last_map)
  with assms(2) have "\<not> is_slash (last ?a)"
    by (metis canonicalize_slash)
  with ne have "trim_slashes ?a = ?a" by (rule trim_slashes_id)
  moreover have "trim_slashes p = trim_slashes ?a"
    using trim_slashes_append [of "drop (length src) p" ?a] h by simp
  ultimately show "map canonicalize (trim_slashes p) = map canonicalize src"
    using h by simp
next
  assume h: "map canonicalize (trim_slashes p) = map canonicalize src"
  then have len: "length (trim_slashes p) = length src" by (metis length_map)
  obtain k where k: "p = trim_slashes p @ replicate k 47"
    using trim_slashes_decomp by blast
  have "take (length src) p = trim_slashes p"
    by (subst k) (simp add: len)
  moreover have "drop (length src) p = replicate k 47"
    by (subst k) (simp add: len)
  ultimately show "map canonicalize (take (length src) p) = map canonicalize src
            \<and> list_all is_slash (drop (length src) p)"
    using h by (simp add: list_all_iff is_slash_def)
qed

lemma ranked_routes:
  "rankRouteBranches routes =
     [\<lparr>path = ''/login'', caseSensitive = False, element = Page Login\<rparr>,
      \<lparr>path = ''/signup'', caseSensitive = False, element = Page Signup\<rparr>,
      \<lparr>path = ''/submit'', caseSensitive = False, element = Page SubmitRepo\<rparr>,
      \<lparr>path = ''/'', caseSensitive = False, element = Page Dashboard\<rparr>,
      \<lparr>path = ''*'', caseSensitive = False, element = Navigate ''/''\<rparr>]"
  by (simp add: rankRouteBranches_def routes_def computeScore_def joinPaths_def is_slash_def
      js_def)

lemma match_login:
  "matchPath (js ''/login'') False p \<longleftrightarrow> map canonicalize (trim_slashes p) = js ''/LOGIN''"
  using static_match [of "js ''/login''" p]
  by (simp add: matchPath_def pattern_source_def ends_with_star_def fold_case_def is_slash_def
      canonicalize_def js_def)

lemma match_signup:
  "matchPath (js ''/signup'') False p \<longleftrightarrow> map canonicalize (trim_slashes p) = js ''/SIGNUP''"
  using static_match [of "js ''/signup''" p]
  by (simp add: matchPath_def pattern_source_def ends_with_star_def fold_case_def is_slash_def
      canonicalize_def js_def)

lemma match_submit:
  "matchPath (js ''/submit'') False p \<longleftrightarrow> map canonicalize (trim_slashes p) = js ''/SUBMIT''"
  using static_match [of "js ''/submit''" p]
  by (simp add: matchPath_def pattern_source_def ends_with_star_def fold_case_def is_slash_def
      canonicalize_def js_def)

lemma match_root:
  "matchPath (js ''/'') False p \<longleftrightarrow> p \<noteq> [] \<and> trim_slashes p = []"
proof -
  have a: "matchPath (js ''/'') False p \<longleftrightarrow> take 1 p = [47] \<and> list_all is_slash (drop 1 p)"
    by (cases p) (auto simp add: matchPath_def pattern_source_def ends_with_star_def fold_case_def
        is_slash_def canonicalize_eq_slash canonicalize_def [of 47] js_def)
  have b: "(take 1 p = [47] \<and> list_all is_slash (drop 1 p)) \<longleftrightarrow> p \<noteq> [] \<and> list_all is_slash p"
    by (cases p) (auto simp add: is_slash_def)
  have c: "list_all is_slash p \<longleftrightarrow> trim_slashes p = []"
    by (auto simp add: trim_slashes_def list_all_iff dropWhile_eq_Nil_conv)
  from a b c show ?thesis by simp
qed

lemma match_splat:
  "matchPath (js ''*'') False p \<longleftrightarrow> take 1 p = [47] \<and> \<not> list_ex line_terminator (drop 1 p)"
  by (cases p) (auto simp add: matchPath_def pattern_source_def ends_with_star_def fold_case_def
        is_slash_def canonicalize_eq_slash canonicalize_def [of 47] js_def)

subsection \<open>Decoding keeps the leading slash\<close>

lemma split_on_not_Nil: "split_on d s \<noteq> []"
  by (cases s) (auto split: list.splits)




text \<open>
  A pathname without \<open>%\<close> is decoded to itself.
\<close>

lemma escapes_plain: "37 \<notin> set s \<Longrightarrow> escapes s = map Unit s"
  by (induction s rule: escapes.induct) auto

lemma decode_units: "decode [] 0 (map Unit s) = Some s"
  by (induction s) auto

lemma decodeURIComponent_plain: "37 \<notin> set s \<Longrightarrow> decodeURIComponent s = Some s"
  by (simp add: decodeURIComponent_def escapes_plain decode_units)

lemma split_on_segments:
  "seg \<in> set (split_on d s) \<Longrightarrow> d \<notin> set seg \<and> set seg \<subseteq> set s"
proof (induction s arbitrary: seg)
  case Nil
  then show ?case by simp
next
  case (Cons c cs)
  show ?case
  proof (cases "c = d")
    case True
    with Cons show ?thesis by auto
  next
    case False
    obtain x xs where sp: "split_on d cs = x # xs"
      using split_on_not_Nil [of d cs] by (cases "split_on d cs") auto
    with False Cons.prems have "seg = c # x \<or> seg \<in> set xs" by simp
    then show ?thesis
    proof
      assume "seg = c # x"
      moreover from sp have "x \<in> set (split_on d cs)" by simp
      then have "d \<notin> set x \<and> set x \<subseteq> set cs" by (rule Cons.IH)
      ultimately show ?thesis using False by auto
    next
      assume "seg \<in> set xs"
      with sp have "seg \<in> set (split_on d cs)" by simp
      then have "d \<notin> set seg \<and> set seg \<subseteq> set cs" by (rule Cons.IH)
      then show ?thesis by auto
    qed
  qed
qed

lemma join_split_on: "join (split_on 47 s) = s"
proof (induction s)
  case Nil
  show ?case by simp
next
  case (Cons c cs)
  obtain x xs where sp: "split_on 47 cs = x # xs"
    using split_on_not_Nil [of 47 cs] by (cases "split_on 47 cs") auto
  with Cons show ?case by (cases xs) auto
qed

lemma collect_plain:
  "\<forall>seg \<in> set segs. 37 \<notin> set seg \<Longrightarrow> collect (map decodeURIComponent segs) = Some segs"
  by (induction segs) (simp_all add: decodeURIComponent_plain)

lemma escape_slashes_plain: "47 \<notin> set s \<Longrightarrow> escape_slashes s = s"
  by (induction s) (simp_all add: escape_slashes_def)

lemma decodePath_plain:
  assumes "37 \<notin> set p"
  shows "decodePath p = p"
proof -
  have seg: "\<forall>seg \<in> set (split_on 47 p). 47 \<notin> set seg \<and> 37 \<notin> set seg"
    using split_on_segments [of _ 47 p] assms by blast
  then have "collect (map decodeURIComponent (split_on 47 p)) = Some (split_on 47 p)"
    by (simp add: collect_plain)
  moreover from seg have "map escape_slashes (split_on 47 p) = split_on 47 p"
    by (simp add: map_idI escape_slashes_plain)
  ultimately show ?thesis by (simp add: decodePath_def join_split_on)
qed

subsection \<open>What \<open>Routes\<close> renders\<close>

lemma Routes_routes:
  "Routes routes pathname =
     (let d = decodePath (if pathname = [] then js ''/'' else pathname);
          t = map canonicalize (trim_slashes d)
      in if t = js ''/LOGIN'' then Some (Page Login)
         else if t = js ''/SIGNUP'' then Some (Page Signup)
         else if t = js ''/SUBMIT'' then Some (Page SubmitRepo)
         else if d \<noteq> [] \<and> t = [] then Some (Page Dashboard)
         else if take 1 d = [47] \<and> \<not> list_ex line_terminator (drop 1 d)
           then Some (Navigate ''/'')
         else None)"
  by (simp add: Routes_def matchRoutes_def ranked_routes match_login match_signup
      match_submit match_root match_splat Let_def)




subsection \<open>Claim C9\<close>

lemmas decode_simps = decodePath_def decodeURIComponent_def escape_slashes_def js_def
  leading_ones_def ParseHexOctet_def hex_digit_def utf8_code_point_def continuation_def
  UTF16EncodeCodePoint_def

lemmas path_simps = trim_slashes_def is_slash_def canonicalize_def line_terminator_def




lemma decode_line_separator: "decodePath (js ''/a%E2%80%A8b'') = [47, 97, 0x2028, 98]"
  by (simp add: decode_simps)

lemma decode_escaped_login: "decodePath (js ''/%6Cogin'') = js ''/login''"
  by (simp add: decode_simps)





text \<open>
  The other line terminators behave as the line feed does; and a route written with an
  escape is still that route.
\<close>

lemma line_separator_renders_nothing:
  "Routes routes (js ''/a%E2%80%A8b'') = None"
  by (simp add: Routes_routes decode_line_separator) (simp add: path_simps js_def)

lemma escaped_route_renders_page:
  "Routes routes (js ''/%6Cogin'') = Some (Page Login)"
  by (simp add: Routes_routes decode_escaped_login) (simp add: path_simps js_def)

subsection \<open>The navigation bar\<close>

text \<open>
  Claim C10: on every route the application can render, matched or redirected, the
  \<open>Navbar\<close> component is rendered, because it is mounted outside the \<open>Routes\<close> switch: for
  every pathname the children of \<open>BrowserRouter\<close> start with the navigation bar, whatever
  \<open>Routes\<close> renders after it, and the same holds at the location a redirect leads to.
\<close>

theorem navbar_on_every_route:
  "hd (App pathname) = Html Navbar
   \<and> Html Navbar \<in> set (App pathname)
   \<and> Html Navbar \<in> set (App (location_after pathname))"
  by (simp add: App_def)

section \<open>Properties of the Optimizer/Scorer\<close>

lemma size_rank_inj: "size_rank a = size_rank b \<longleftrightarrow> a = b"
  by (cases a; cases b) simp_all

lemma strategy_rank_inj: "strategy_rank a = strategy_rank b \<longleftrightarrow> a = b"
  by (cases a; cases b) simp_all

lemma strategy_rank_less: "strategy_rank a < strategy_rank b \<longleftrightarrow> a \<noteq> b \<and> a = MultiStage"
  by (cases a; cases b) simp_all

lemma beats_key: "beats c d \<longleftrightarrow> lex3 (key c) (key d)"
  unfolding beats_def key_def lex3.simps
  using strategy_rank_inj [of "strategy c" "strategy d"]
    strategy_rank_less [of "strategy c" "strategy d"]
    size_rank_inj [of "image_size c" "image_size d"]
  by auto

lemma lex3_asym: "lex3 x y \<Longrightarrow> \<not> lex3 y x"
  by (cases x; cases y) auto

lemma lex3_trans: "lex3 x y \<Longrightarrow> lex3 y z \<Longrightarrow> lex3 x z"
  by (cases x; cases y; cases z) auto

lemma lex3_negtrans: "lex3 x y \<Longrightarrow> lex3 x z \<or> lex3 z y"
  by (cases x; cases y; cases z) auto

lemma beats_asym: "beats c d \<Longrightarrow> \<not> beats d c"
  by (simp add: beats_key lex3_asym)

lemma beats_trans: "beats a b \<Longrightarrow> beats b c \<Longrightarrow> beats a c"
  unfolding beats_key by (rule lex3_trans)

lemma beats_negtrans: "beats a b \<Longrightarrow> beats a c \<or> beats c b"
  unfolding beats_key by (rule lex3_negtrans)

lemma scan_split:
  "\<exists>pre post. pre @ scan b cs # post = b # cs
      \<and> (\<forall>x \<in> set pre. beats (scan b cs) x)
      \<and> (\<forall>x \<in> set post. \<not> beats x (scan b cs))"
proof (induction cs arbitrary: b)
  case Nil
  show ?case by (intro exI [of _ "[]"]) simp
next
  case (Cons c cs)
  show ?case
  proof (cases "beats c b")
    case True
    then have s: "scan b (c # cs) = scan c cs" by simp
    from Cons.IH [of c] obtain pre post where
      d: "pre @ scan c cs # post = c # cs"
      and l: "\<forall>x \<in> set pre. beats (scan c cs) x"
      and r: "\<forall>x \<in> set post. \<not> beats x (scan c cs)" by blast
    have "beats (scan c cs) b"
    proof (cases pre)
      case Nil
      with d have "scan c cs = c" by simp
      with True show ?thesis by simp
    next
      case (Cons p ps)
      with d have "c \<in> set pre" by simp
      with l have "beats (scan c cs) c" by blast
      then show ?thesis using True by (rule beats_trans)
    qed
    with d l have "(b # pre) @ scan c cs # post = b # c # cs
      \<and> (\<forall>x \<in> set (b # pre). beats (scan c cs) x)" by simp
    with r show ?thesis unfolding s
      by (intro exI [of _ "b # pre"] exI [of _ post]) simp
  next
    case False
    then have s: "scan b (c # cs) = scan b cs" by simp
    from Cons.IH [of b] obtain pre post where
      d: "pre @ scan b cs # post = b # cs"
      and l: "\<forall>x \<in> set pre. beats (scan b cs) x"
      and r: "\<forall>x \<in> set post. \<not> beats x (scan b cs)" by blast
    show ?thesis
    proof (cases pre)
      case Nil
      with d have e: "scan b cs = b" and p: "post = cs" by simp_all
      from False r have "\<forall>x \<in> set (c # post). \<not> beats x (scan b cs)"
        by (simp add: e)
      moreover have "[] @ scan b cs # (c # post) = b # c # cs"
        by (simp add: e p)
      ultimately show ?thesis unfolding s
        by (intro exI [of _ "[]"] exI [of _ "c # post"]) simp
    next
      case (Cons p ps)
      with d have pb: "p = b" and cs: "ps @ scan b cs # post = cs" by simp_all
      from l Cons pb have "beats (scan b cs) b" by simp
      with False have "beats (scan b cs) c" using beats_negtrans by blast
      with l Cons pb have "\<forall>x \<in> set (b # c # ps). beats (scan b cs) x" by simp
      moreover from cs have "(b # c # ps) @ scan b cs # post = b # c # cs" by simp
      ultimately show ?thesis unfolding s using r
        by (intro exI [of _ "b # c # ps"] exI [of _ post]) simp
    qed
  qed
qed

lemma select_position:
  assumes "cs \<noteq> []"
  shows "\<exists>i<length cs. select cs = Some (cs ! i)
           \<and> (\<forall>j<length cs. \<not> beats (cs ! j) (cs ! i))
           \<and> (\<forall>j<i. beats (cs ! i) (cs ! j))"
proof -
  from assms obtain b rest where cs: "cs = b # rest" by (cases cs) auto
  then have sel: "select cs = Some (scan b rest)" by (simp add: select_def)
  define w where "w = scan b rest"
  from scan_split [of b rest] cs obtain pre post where
    d: "pre @ w # post = cs"
    and l: "\<forall>x \<in> set pre. beats w x"
    and r: "\<forall>x \<in> set post. \<not> beats x w" unfolding w_def by auto
  let ?i = "length pre"
  from d have i: "?i < length cs" by auto
  from d have at: "cs ! ?i = w" by auto
  have left: "beats w (cs ! j)" if "j < ?i" for j
  proof -
    from that d have "cs ! j = pre ! j" by (auto simp add: nth_append)
    with that l show ?thesis by simp
  qed
  have none: "\<not> beats (cs ! j) w" if j: "j < length cs" for j
  proof -
    consider "j < ?i" | "j = ?i" | "?i < j" by linarith
    then show ?thesis
    proof cases
      case 1
      then show ?thesis using left beats_asym by blast
    next
      case 2
      with at show ?thesis using beats_asym by auto
    next
      case 3
      from d have len: "length cs = ?i + 1 + length post" by auto
      from 3 d have "cs ! j = post ! (j - ?i - 1)"
        by (auto simp add: nth_append nth_Cons')
      moreover from 3 j len have "j - ?i - 1 < length post" by simp
      ultimately have "cs ! j \<in> set post" by simp
      with r show ?thesis by simp
    qed
  qed
  from i sel at left none show ?thesis unfolding w_def [symmetric] by auto
qed

lemma not_beats_iff:
  "\<not> beats c d \<longleftrightarrow>
     (strategy c = MultiStage \<longrightarrow> strategy d = MultiStage) \<and>
     (strategy c = strategy d \<longrightarrow> size_rank (image_size d) \<le> size_rank (image_size c)) \<and>
     (strategy c = strategy d \<and> image_size c = image_size d \<longrightarrow>
        length (layer_instructions d) \<le> length (layer_instructions c))"
  unfolding beats_key key_def lex3.simps
  using strategy_rank_inj [of "strategy c" "strategy d"]
    strategy_rank_less [of "strategy c" "strategy d"]
    strategy_rank_less [of "strategy d" "strategy c"]
    size_rank_inj [of "image_size c" "image_size d"]
  by (cases "strategy c"; cases "strategy d") auto

lemma lex3_total: "\<not> lex3 x y \<Longrightarrow> \<not> lex3 y x \<Longrightarrow> x = y"
  by (cases x; cases y) auto

lemma key_eq_iff:
  "key c = key d \<longleftrightarrow>
     strategy c = strategy d \<and> image_size c = image_size d
       \<and> length (layer_instructions c) = length (layer_instructions d)"
  by (simp add: key_def strategy_rank_inj size_rank_inj)

lemma beats_total:
  "\<not> beats c d \<Longrightarrow> \<not> beats d c \<Longrightarrow>
     strategy c = strategy d \<and> image_size c = image_size d
       \<and> length (layer_instructions c) = length (layer_instructions d)"
  unfolding beats_key key_eq_iff [symmetric] by (rule lex3_total)

lemma beats_irrefl_key: "key c = key d \<Longrightarrow> \<not> beats c d"
  by (metis beats_key lex3_asym)

lemma priority_choice_iff:
  "priority_choice cs i \<longleftrightarrow>
     i < length cs \<and> (\<forall>j<length cs. \<not> beats (cs ! j) (cs ! i))
       \<and> (\<forall>j<i. beats (cs ! i) (cs ! j))"
  (is "?L \<longleftrightarrow> ?R")
proof
  assume l: ?L
  then have i: "i < length cs" by (simp add: priority_choice_def)
  have nb: "\<not> beats (cs ! j) (cs ! i)" if "j < length cs" for j
  proof -
    from l that have
      "(strategy (cs ! j) = MultiStage \<longrightarrow> strategy (cs ! i) = MultiStage) \<and>
       (strategy (cs ! j) = strategy (cs ! i) \<longrightarrow>
          size_rank (image_size (cs ! i)) \<le> size_rank (image_size (cs ! j))) \<and>
       (strategy (cs ! j) = strategy (cs ! i) \<and> image_size (cs ! j) = image_size (cs ! i) \<longrightarrow>
          length (layer_instructions (cs ! i)) \<le> length (layer_instructions (cs ! j)))"
      by (simp add: priority_choice_def)
    then show ?thesis by (simp only: not_beats_iff)
  qed
  have "beats (cs ! i) (cs ! j)" if j: "j < i" for j
  proof (rule ccontr)
    assume n: "\<not> beats (cs ! i) (cs ! j)"
    from j i have jl: "j < length cs" by simp
    from beats_total [OF nb [OF jl] n] l jl have "i \<le> j"
      by (simp add: priority_choice_def)
    with j show False by simp
  qed
  with i nb show ?R by blast
next
  assume r: ?R
  then have i: "i < length cs" by simp
  have "(strategy (cs ! j) = MultiStage \<longrightarrow> strategy (cs ! i) = MultiStage) \<and>
       (strategy (cs ! j) = strategy (cs ! i) \<longrightarrow>
          size_rank (image_size (cs ! i)) \<le> size_rank (image_size (cs ! j))) \<and>
       (strategy (cs ! j) = strategy (cs ! i) \<and> image_size (cs ! j) = image_size (cs ! i) \<longrightarrow>
          length (layer_instructions (cs ! i)) \<le> length (layer_instructions (cs ! j))) \<and>
       (strategy (cs ! j) = strategy (cs ! i) \<and> image_size (cs ! j) = image_size (cs ! i) \<and>
        length (layer_instructions (cs ! j)) = length (layer_instructions (cs ! i)) \<longrightarrow>
          i \<le> j)" if jl: "j < length cs" for j
  proof -
    from r jl have "\<not> beats (cs ! j) (cs ! i)" by simp
    then have three:
      "(strategy (cs ! j) = MultiStage \<longrightarrow> strategy (cs ! i) = MultiStage) \<and>
       (strategy (cs ! j) = strategy (cs ! i) \<longrightarrow>
          size_rank (image_size (cs ! i)) \<le> size_rank (image_size (cs ! j))) \<and>
       (strategy (cs ! j) = strategy (cs ! i) \<and> image_size (cs ! j) = image_size (cs ! i) \<longrightarrow>
          length (layer_instructions (cs ! i)) \<le> length (layer_instructions (cs ! j)))"
      by (simp only: not_beats_iff)
    have "i \<le> j"
      if e: "strategy (cs ! j) = strategy (cs ! i) \<and> image_size (cs ! j) = image_size (cs ! i)
        \<and> length (layer_instructions (cs ! j)) = length (layer_instructions (cs ! i))"
    proof (rule ccontr)
      assume "\<not> i \<le> j"
      then have "beats (cs ! i) (cs ! j)" using r by simp
      moreover from e have "key (cs ! i) = key (cs ! j)" by (simp add: key_eq_iff)
      ultimately show False using beats_irrefl_key by blast
    qed
    with three show ?thesis by blast
  qed
  with i show ?L unfolding priority_choice_def by blast
qed

lemma priority_choice_unique:
  assumes "priority_choice cs i" and "priority_choice cs k"
  shows "i = k"
proof (rule ccontr)
  assume "i \<noteq> k"
  then consider "i < k" | "k < i" by linarith
  then show False
  proof cases
    case 1
    with assms show ?thesis unfolding priority_choice_iff by blast
  next
    case 2
    with assms show ?thesis unfolding priority_choice_iff by blast
  qed
qed

text \<open>
  Claim C1: for every non-empty sequence of candidates \<open>select\<close> returns exactly one
  candidate, the one the priority order singles out: a multi-stage candidate if there is
  one; among the candidates of that strategy one of the smallest size class; among those
  one with the fewest layer instructions; and among those the one emitted first. There
  is exactly one such position in the sequence, so no tie is left to chance.
\<close>

theorem select_priority_order:
  assumes "cs \<noteq> []"
  shows "\<exists>i. priority_choice cs i \<and> select cs = Some (cs ! i)
             \<and> (\<forall>k. priority_choice cs k \<longrightarrow> k = i)"
proof -
  from select_position [OF assms] obtain i where
    "i < length cs" and "select cs = Some (cs ! i)"
    and "\<forall>j<length cs. \<not> beats (cs ! j) (cs ! i)"
    and "\<forall>j<i. beats (cs ! i) (cs ! j)" by blast
  then have "priority_choice cs i \<and> select cs = Some (cs ! i)"
    by (simp add: priority_choice_iff)
  then show ?thesis using priority_choice_unique by blast
qed

theorem select_priority_order_witness:
  "example_candidates \<noteq> []
   \<and> priority_choice example_candidates 1
   \<and> select example_candidates = Some (example_candidates ! 1)"
proof -
  have ne: "example_candidates \<noteq> []" by (simp add: example_candidates_def)
  from select_priority_order [OF ne] obtain i where
    s: "select example_candidates = Some (example_candidates ! i)"
    and u: "\<forall>k. priority_choice example_candidates k \<longrightarrow> k = i" by blast
  have three: "j = 0 \<or> j = 1 \<or> j = 2" if "j < 3" for j :: nat
    using that by arith
  have len: "length example_candidates = 3" by (simp add: example_candidates_def)
  have c: "priority_choice example_candidates 1"
    unfolding priority_choice_def len
  proof (intro conjI allI impI)
    show "(1::nat) < 3" by simp
  next
    fix j :: nat assume "j < 3" and "strategy (example_candidates ! j) = MultiStage"
    show "strategy (example_candidates ! 1) = MultiStage"
      by (simp add: example_candidates_def)
  next
    fix j :: nat assume "j < 3"
    then have "j = 0 \<or> j = 1 \<or> j = 2" by (rule three)
    moreover assume "strategy (example_candidates ! j) = strategy (example_candidates ! 1)"
    ultimately show "size_rank (image_size (example_candidates ! 1))
        \<le> size_rank (image_size (example_candidates ! j))"
      by (auto simp add: example_candidates_def)
  next
    fix j :: nat assume "j < 3"
    then have "j = 0 \<or> j = 1 \<or> j = 2" by (rule three)
    moreover assume "strategy (example_candidates ! j) = strategy (example_candidates ! 1)
      \<and> image_size (example_candidates ! j) = image_size (example_candidates ! 1)"
    ultimately show "length (layer_instructions (example_candidates ! 1))
        \<le> length (layer_instructions (example_candidates ! j))"
      by (auto simp add: example_candidates_def)
  next
    fix j :: nat assume "j < 3"
    then have "j = 0 \<or> j = 1 \<or> j = 2" by (rule three)
    moreover assume "strategy (example_candidates ! j) = strategy (example_candidates ! 1)
      \<and> image_size (example_candidates ! j) = image_size (example_candidates ! 1)
      \<and> length (layer_instructions (example_candidates ! j))
          = length (layer_instructions (example_candidates ! 1))"
    ultimately show "1 \<le> j"
      by (auto simp add: example_candidates_def)
  qed
  with u have "i = 1" by blast
  with ne c s show ?thesis by simp
qed

end
